theory Spec2Isabelle
  imports Main
begin

section \<open>Python values used by \<^verbatim>\<open>scripts/fetch_news.py\<close>\<close>

text \<open>
  A Python \<^verbatim>\<open>str\<close> is a sequence of Unicode code points; it is modelled as a list of
  natural numbers, one per code point. The queries and the news titles are Japanese
  text, so the byte-oriented \<^typ>\<open>char\<close> would not count what Python counts.
\<close>

type_synonym pystr = "nat list"

text \<open>ASCII literals of the source are written with \<open>ustr\<close>.\<close>

definition ustr :: "string \<Rightarrow> pystr" where
  "ustr s = map of_char s"

text \<open>
  \<^verbatim>\<open>str.strip()\<close> without argument removes leading and trailing white space, which for
  a \<^verbatim>\<open>str\<close> is the set of code points CPython's \<^verbatim>\<open>Py_UNICODE_ISSPACE\<close> accepts.
\<close>

definition isspace :: "nat \<Rightarrow> bool" where
  "isspace c \<longleftrightarrow>
     (9 \<le> c \<and> c \<le> 13) \<or> (28 \<le> c \<and> c \<le> 32) \<or> c = 133 \<or> c = 160 \<or> c = 5760 \<or>
     (8192 \<le> c \<and> c \<le> 8202) \<or> c = 8232 \<or> c = 8233 \<or> c = 8239 \<or> c = 8287 \<or> c = 12288"

definition strip :: "pystr \<Rightarrow> pystr" where
  "strip s = rev (dropWhile isspace (rev (dropWhile isspace s)))"

text \<open>\<^verbatim>\<open>x or ""\<close> for an optional string \<open>x\<close>: \<^verbatim>\<open>None\<close> and \<^verbatim>\<open>""\<close> both give \<^verbatim>\<open>""\<close>.\<close>

definition or_empty :: "pystr option \<Rightarrow> pystr" where
  "or_empty x = (case x of None \<Rightarrow> [] | Some s \<Rightarrow> s)"

definition startswith :: "pystr \<Rightarrow> pystr \<Rightarrow> bool" where
  "startswith s p \<longleftrightarrow> take (length p) s = p"

text \<open>
  \<^verbatim>\<open>str.splitlines()\<close>: the line boundaries are LF, CR, CR LF, VT, FF, FS, GS, RS, NEL,
  LS and PS; the breaks are not kept, and a break at the very end opens no further line.
\<close>

definition linebreak :: "nat \<Rightarrow> bool" where
  "linebreak c \<longleftrightarrow>
     c = 10 \<or> c = 13 \<or> c = 11 \<or> c = 12 \<or> c = 28 \<or> c = 29 \<or> c = 30 \<or> c = 133 \<or>
     c = 8232 \<or> c = 8233"

fun splitlines_from :: "pystr \<Rightarrow> pystr \<Rightarrow> pystr list" where
  "splitlines_from cur [] = (if cur = [] then [] else [cur])"
| "splitlines_from cur [c] = (if linebreak c then [cur] else [cur @ [c]])"
| "splitlines_from cur (c # d # cs) =
     (if c = 13 \<and> d = 10 then cur # splitlines_from [] cs
      else if linebreak c then cur # splitlines_from [] (d # cs)
      else splitlines_from (cur @ [c]) (d # cs))"

definition splitlines :: "pystr \<Rightarrow> pystr list" where
  "splitlines s = splitlines_from [] s"

text \<open>
  A slice \<^verbatim>\<open>xs[:n]\<close>: a negative bound counts from the end, and a bound outside the
  list is clamped.
\<close>

definition slice_to :: "'a list \<Rightarrow> int \<Rightarrow> 'a list" where
  "slice_to xs n =
     (if n < 0 then take (nat (int (length xs) + n)) xs else take (nat n) xs)"

text \<open>The exceptions that reach the code of the script.\<close>

datatype exn = ParseError | RequestException | UnicodeDecodeError | CsvError

section \<open>Configuration\<close>

definition DEFAULT_QUERIES :: "pystr list" where
  "DEFAULT_QUERIES =
     [[29289, 20385, 32, 39135, 26009, 32, 26085, 26412],
      [31859, 32, 23567, 40614, 32, 20385, 26684],
      [12467, 12531, 12499, 12491, 32, 26032, 21830, 21697]]"

section \<open>Data structure\<close>

record NewsItem =
  query :: pystr
  title :: pystr
  link :: pystr
  published :: pystr
  collected_jst :: pystr

text \<open>A row is a \<^verbatim>\<open>Dict[str, str]\<close>.\<close>

type_synonym row = "pystr \<rightharpoonup> pystr"

definition as_row :: "NewsItem \<Rightarrow> row" where
  "as_row it =
     [ustr ''source'' \<mapsto> ustr ''GoogleNews:'' @ query it,
      ustr ''query'' \<mapsto> query it,
      ustr ''title'' \<mapsto> title it,
      ustr ''link'' \<mapsto> link it,
      ustr ''published'' \<mapsto> published it,
      ustr ''collected_jst'' \<mapsto> collected_jst it]"

section \<open>The feed parser\<close>

text \<open>
  The element tree \<^verbatim>\<open>xml.etree.ElementTree\<close> builds: a tag, the text before the first
  child (\<^verbatim>\<open>None\<close> when there is none) and the children in document order.
  The XML parser itself, \<^verbatim>\<open>ET.fromstring\<close>, is a parameter of the model: a function
  from the text to a parse error or the root element.
\<close>

datatype element = Element (tag: pystr) (etext: "pystr option") (children: "element list")

text \<open>
  \<^verbatim>\<open>findall\<close>, \<^verbatim>\<open>find\<close> and \<^verbatim>\<open>findtext\<close> with a plain tag as path look at the direct
  children only; \<^verbatim>\<open>findtext\<close> gives \<^verbatim>\<open>None\<close> when there is no such child and
  \<^verbatim>\<open>""\<close> for a child without text.
\<close>

definition findall :: "element \<Rightarrow> pystr \<Rightarrow> element list" where
  "findall e t = filter (\<lambda>c. tag c = t) (children e)"

definition find_elem :: "element \<Rightarrow> pystr \<Rightarrow> element option" where
  "find_elem e t = (case findall e t of [] \<Rightarrow> None | c # _ \<Rightarrow> Some c)"

definition findtext :: "element \<Rightarrow> pystr \<Rightarrow> pystr option" where
  "findtext e t =
     (case find_elem e t of
        None \<Rightarrow> None
      | Some c \<Rightarrow> Some (case etext c of None \<Rightarrow> [] | Some s \<Rightarrow> s))"

text \<open>
  The loop of \<^verbatim>\<open>parse_rss\<close> over the truncated entries. \<open>now k\<close> is what
  \<^verbatim>\<open>now_jst_iso()\<close> returns while the loop is at the \<open>k\<close>-th entry.
\<close>

fun parse_items :: "(nat \<Rightarrow> pystr) \<Rightarrow> nat \<Rightarrow> pystr \<Rightarrow> element list \<Rightarrow> NewsItem list" where
  "parse_items now k q [] = []"
| "parse_items now k q (it # its) =
     (let t = strip (or_empty (findtext it (ustr ''title'')));
          l = strip (or_empty (findtext it (ustr ''link'')));
          pub = strip (or_empty (findtext it (ustr ''pubDate'')))
      in if t = [] then parse_items now (Suc k) q its
         else \<lparr>query = q, title = t, link = l, published = pub, collected_jst = now k\<rparr>
              # parse_items now (Suc k) q its)"

definition parse_rss ::
  "(pystr \<Rightarrow> exn + element) \<Rightarrow> (nat \<Rightarrow> pystr) \<Rightarrow> pystr \<Rightarrow> pystr \<Rightarrow> int \<Rightarrow> exn + NewsItem list"
where
  "parse_rss fromstring now xml_text q max_items =
     (case fromstring xml_text of
        Inl e \<Rightarrow> Inr []
      | Inr root \<Rightarrow>
          (case find_elem root (ustr ''channel'') of
             None \<Rightarrow> Inr []
           | Some channel \<Rightarrow>
               Inr (parse_items now 0 q (slice_to (findall channel (ustr ''item'')) max_items))))"

section \<open>The query list\<close>

text \<open>
  The file \<^verbatim>\<open>config/queries.txt\<close>: it does not exist, or its bytes are not UTF-8 (then
  \<^verbatim>\<open>read_text\<close> raises), or it holds a text.
\<close>

datatype text_file = Missing | Undecodable | Text pystr

fun usable_lines :: "pystr list \<Rightarrow> pystr list" where
  "usable_lines [] = []"
| "usable_lines (l # ls) =
     (let s = strip (or_empty (Some l))
      in if s = [] then usable_lines ls
         else if startswith s (ustr ''#'') then usable_lines ls
         else s # usable_lines ls)"

definition load_queries_from_file :: "text_file \<Rightarrow> exn + pystr list" where
  "load_queries_from_file path =
     (case path of
        Missing \<Rightarrow> Inr []
      | Undecodable \<Rightarrow> Inl UnicodeDecodeError
      | Text t \<Rightarrow> Inr (usable_lines (splitlines t)))"

section \<open>The day store\<close>

text \<open>
  One CSV file per calendar day, \<^verbatim>\<open>data/news_<day>.csv\<close>. The path is a function of the
  day alone, so the store is indexed by the day (its ordinal). A file is the sequence
  of records the \<^verbatim>\<open>csv\<close> module reads from it and writes to it, each a list of
  fields; \<open>Bad\<close> marks a place where reading raises (bytes that are not UTF-8, a field
  the \<^verbatim>\<open>csv\<close> module rejects). A path that does not exist is \<open>None\<close>.
  The records \<^verbatim>\<open>append_rows\<close> writes are read back as they were written. Failures of
  the operating system while a file is opened or written are outside the model.
\<close>

type_synonym date = nat

datatype csv_rec = Rec "pystr list" | Bad

type_synonym day_file = "csv_rec list option"

type_synonym store = "date \<Rightarrow> day_file"

type_synonym seen_set = "(pystr \<times> pystr) set"

text \<open>
  The dictionary \<^verbatim>\<open>csv.DictReader\<close> makes of a record: the field names zipped with the
  fields, then \<^verbatim>\<open>None\<close> for every field name beyond the record's length.
\<close>

definition dict_row :: "pystr list \<Rightarrow> pystr list \<Rightarrow> (pystr \<rightharpoonup> pystr option)" where
  "dict_row fieldnames cells =
     fold (\<lambda>k d. d(k \<mapsto> None)) (drop (length cells) fieldnames)
       (fold (\<lambda>(k, v) d. d(k \<mapsto> Some v)) (zip fieldnames cells) Map.empty)"

text \<open>\<^verbatim>\<open>r.get(k)\<close> on such a dictionary.\<close>

definition dict_get :: "(pystr \<rightharpoonup> pystr option) \<Rightarrow> pystr \<Rightarrow> pystr option" where
  "dict_get r k = (case r k of None \<Rightarrow> None | Some v \<Rightarrow> v)"

text \<open>
  The loop \<^verbatim>\<open>for r in reader\<close> of \<^verbatim>\<open>read_existing_set\<close>. The reader skips empty
  records. An exception ends the loop and is swallowed; what \<open>seen\<close> holds by then is
  returned.
\<close>

fun read_rows :: "pystr list \<Rightarrow> seen_set \<Rightarrow> csv_rec list \<Rightarrow> seen_set" where
  "read_rows fieldnames seen [] = seen"
| "read_rows fieldnames seen (Bad # rest) = seen"
| "read_rows fieldnames seen (Rec cells # rest) =
     (if cells = [] then read_rows fieldnames seen rest
      else
        (let r = dict_row fieldnames cells;
             t = strip (or_empty (dict_get r (ustr ''title'')));
             l = strip (or_empty (dict_get r (ustr ''link'')))
         in if t \<noteq> [] \<and> l \<noteq> [] then read_rows fieldnames (insert (t, l) seen) rest
            else read_rows fieldnames seen rest))"

text \<open>The first record of the file is the reader's list of field names.\<close>

definition read_existing_set :: "day_file \<Rightarrow> seen_set" where
  "read_existing_set csv_path =
     (case csv_path of
        None \<Rightarrow> {}
      | Some [] \<Rightarrow> {}
      | Some (Bad # rest) \<Rightarrow> {}
      | Some (Rec fieldnames # rest) \<Rightarrow> read_rows fieldnames {} rest)"

definition header :: "pystr list" where
  "header =
     [ustr ''source'', ustr ''query'', ustr ''title'', ustr ''link'', ustr ''published'',
      ustr ''collected_jst'']"

text \<open>\<^verbatim>\<open>{k: r.get(k, "") for k in header}\<close>, written as one record in the header's order.\<close>

definition row_fields :: "row \<Rightarrow> pystr list" where
  "row_fields r = map (\<lambda>k. case r k of None \<Rightarrow> [] | Some v \<Rightarrow> v) header"

definition append_rows :: "day_file \<Rightarrow> row list \<Rightarrow> day_file" where
  "append_rows csv_path rows =
     (case csv_path of
        None \<Rightarrow> Some (Rec header # map (\<lambda>r. Rec (row_fields r)) rows)
      | Some old \<Rightarrow> Some (old @ map (\<lambda>r. Rec (row_fields r)) rows))"

section \<open>The collection run\<close>

text \<open>
  What a run reads from outside: the XML parser, the response to the \<open>i\<close>-th request
  of the run (the text of the response, or the exception of \<^verbatim>\<open>s.get\<close> and
  \<^verbatim>\<open>raise_for_status\<close>; the URL is a function of the query), the clock (the reading
  during the \<open>i\<close>-th query at the \<open>k\<close>-th entry), today's date, the query file, and
  the cap on the items of one query.
\<close>

record env =
  fromstring :: "pystr \<Rightarrow> exn + element"
  http_get :: "nat \<Rightarrow> pystr \<Rightarrow> exn + pystr"
  now_jst_iso :: "nat \<Rightarrow> nat \<Rightarrow> pystr"
  jst_today :: date
  QUERY_FILE :: text_file
  MAX_ITEMS_PER_QUERY :: int

text \<open>Lines 181 to 183 of \<^verbatim>\<open>collect_daily\<close>: the queries of the run.\<close>

definition load_queries :: "text_file \<Rightarrow> exn + pystr list" where
  "load_queries path =
     (case load_queries_from_file path of
        Inl e \<Rightarrow> Inl e
      | Inr queries \<Rightarrow> Inr (if queries = [] then DEFAULT_QUERIES else queries))"

text \<open>Lines 198 to 205: the items of one query; any exception gives no item.\<close>

definition fetch_items :: "env \<Rightarrow> nat \<Rightarrow> pystr \<Rightarrow> NewsItem list" where
  "fetch_items e i q =
     (case http_get e i q of
        Inl x \<Rightarrow> []
      | Inr xml_text \<Rightarrow>
          (case parse_rss (fromstring e) (now_jst_iso e i) xml_text q (MAX_ITEMS_PER_QUERY e) of
             Inl x \<Rightarrow> []
           | Inr items \<Rightarrow> items))"

text \<open>Lines 208 to 214: the new items of one query, and \<open>seen\<close> as the loop leaves it.\<close>

fun dedup_items :: "seen_set \<Rightarrow> NewsItem list \<Rightarrow> NewsItem list \<times> seen_set" where
  "dedup_items seen [] = ([], seen)"
| "dedup_items seen (it # its) =
     (let key = (title it, link it)
      in if key \<in> seen then dedup_items seen its
         else (let (new_items, seen') = dedup_items (insert key seen) its
               in (it # new_items, seen')))"

text \<open>The loop over the queries, numbered from 1: the rows of the run.\<close>

fun collect_queries :: "env \<Rightarrow> nat \<Rightarrow> seen_set \<Rightarrow> pystr list \<Rightarrow> row list \<times> seen_set" where
  "collect_queries e i seen [] = ([], seen)"
| "collect_queries e i seen (q # qs) =
     (let items = fetch_items e i q;
          (new_items, seen1) = dedup_items seen items;
          (more_rows, seen2) = collect_queries e (Suc i) seen1 qs
      in (map as_row new_items @ more_rows, seen2))"

text \<open>
  The rows a run for \<open>day\<close> collects on top of the file \<open>f\<close>, with the queries \<open>qs\<close>.
\<close>

definition all_new_rows :: "env \<Rightarrow> day_file \<Rightarrow> pystr list \<Rightarrow> row list" where
  "all_new_rows e f qs = fst (collect_queries e 1 (read_existing_set f) qs)"

text \<open>
  \<^verbatim>\<open>collect_daily\<close>: the day of the run and the store it leaves, or the exception that
  ends the run. The messages it prints and the pauses between the queries change
  nothing of this.
\<close>

definition collect_daily :: "env \<Rightarrow> date option \<Rightarrow> store \<Rightarrow> exn + (date \<times> store)" where
  "collect_daily e day st =
     (let d = (case day of None \<Rightarrow> jst_today e | Some d' \<Rightarrow> d')
      in case load_queries (QUERY_FILE e) of
           Inl x \<Rightarrow> Inl x
         | Inr queries \<Rightarrow>
             (let rows = all_new_rows e (st d) queries
              in if rows \<noteq> [] then Inr (d, st(d := append_rows (st d) rows))
                 else Inr (d, st)))"

text \<open>A sequence of runs; a run that ends with an exception has written nothing.\<close>

fun run_all :: "store \<Rightarrow> (env \<times> date option) list \<Rightarrow> store" where
  "run_all st [] = st"
| "run_all st ((e, day) # rs) =
     (case collect_daily e day st of
        Inl x \<Rightarrow> run_all st rs
      | Inr (d, st') \<Rightarrow> run_all st' rs)"

section \<open>Notions used to state the properties\<close>

text \<open>The identity key of a parsed item, as line 210 of \<^verbatim>\<open>collect_daily\<close> forms it.\<close>

definition item_key :: "NewsItem \<Rightarrow> pystr \<times> pystr" where
  "item_key it = (title it, link it)"

text \<open>
  The identity keys of the data records of a file, in file order, and the number of
  its data records.
\<close>

definition rec_key :: "csv_rec \<Rightarrow> pystr \<times> pystr" where
  "rec_key r = (case r of Rec fs \<Rightarrow> (or_empty (dict_get (dict_row header fs) (ustr ''title'')),
                                    or_empty (dict_get (dict_row header fs) (ustr ''link'')))
                | Bad \<Rightarrow> ([], []))"

definition file_keys :: "day_file \<Rightarrow> (pystr \<times> pystr) list" where
  "file_keys f = (case f of None \<Rightarrow> [] | Some recs \<Rightarrow> map rec_key (tl recs))"

definition file_size :: "day_file \<Rightarrow> nat" where
  "file_size f = (case f of None \<Rightarrow> 0 | Some recs \<Rightarrow> length (tl recs))"

text \<open>A key with a link, and a store without any file.\<close>

definition linked :: "pystr \<times> pystr \<Rightarrow> bool" where
  "linked k \<longleftrightarrow> snd k \<noteq> []"

definition no_files :: store where
  "no_files = (\<lambda>d. None)"

text \<open>The day a run works on: \<^verbatim>\<open>day or jst_today()\<close>.\<close>

definition the_day :: "env \<Rightarrow> date option \<Rightarrow> date" where
  "the_day e day = (case day of None \<Rightarrow> jst_today e | Some d \<Rightarrow> d)"

text \<open>A feed entry whose title is missing, empty or white space only.\<close>

definition titleless :: "element \<Rightarrow> bool" where
  "titleless it \<longleftrightarrow> (\<forall>c\<in>set (or_empty (findtext it (ustr ''title''))). isspace c)"

text \<open>A line of the query file that counts, in the words of the specification.\<close>

definition usable :: "pystr \<Rightarrow> bool" where
  "usable s \<longleftrightarrow> s \<noteq> [] \<and> \<not> startswith s (ustr ''#'')"

text \<open>
  The key \<^verbatim>\<open>read_existing_set\<close> computes for a record under the field names of the
  file, and the records for which it inserts that key.
\<close>

definition row_key :: "pystr list \<Rightarrow> pystr list \<Rightarrow> pystr \<times> pystr" where
  "row_key fieldnames cells =
     (strip (or_empty (dict_get (dict_row fieldnames cells) (ustr ''title''))),
      strip (or_empty (dict_get (dict_row fieldnames cells) (ustr ''link''))))"

definition keyed :: "pystr list \<Rightarrow> pystr list \<Rightarrow> bool" where
  "keyed fieldnames cells \<longleftrightarrow>
     cells \<noteq> [] \<and> fst (row_key fieldnames cells) \<noteq> [] \<and> snd (row_key fieldnames cells) \<noteq> []"

text \<open>The items a run keeps, before \<^verbatim>\<open>as_row\<close> turns them into rows.\<close>

fun kept_items :: "env \<Rightarrow> nat \<Rightarrow> seen_set \<Rightarrow> pystr list \<Rightarrow> NewsItem list" where
  "kept_items e i seen [] = []"
| "kept_items e i seen (q # qs) =
     fst (dedup_items seen (fetch_items e i q))
     @ kept_items e (Suc i) (snd (dedup_items seen (fetch_items e i q))) qs"

text \<open>
  The record \<^verbatim>\<open>append_rows\<close> writes for an item, what the parser guarantees of an item,
  and the files the script itself has written: the header, then records of such items,
  no two of them with the same key and a link.
\<close>

definition item_rec :: "NewsItem \<Rightarrow> csv_rec" where
  "item_rec it = Rec (row_fields (as_row it))"

definition trimmed :: "NewsItem \<Rightarrow> bool" where
  "trimmed it \<longleftrightarrow> title it \<noteq> [] \<and> strip (title it) = title it \<and> strip (link it) = link it"

definition wf_file :: "day_file \<Rightarrow> bool" where
  "wf_file f \<longleftrightarrow>
     (case f of
        None \<Rightarrow> True
      | Some recs \<Rightarrow>
          (\<exists>its. recs = Rec header # map item_rec its \<and> (\<forall>it\<in>set its. trimmed it) \<and>
             distinct (filter linked (map item_key its))))"

subsection \<open>Concrete feeds and environments\<close>

text \<open>An entry with a title and a link, and a feed with the given entries.\<close>

definition rss_item :: "pystr \<Rightarrow> pystr \<Rightarrow> element" where
  "rss_item t l =
     Element (ustr ''item'') None
       [Element (ustr ''title'') (Some t) [], Element (ustr ''link'') (Some l) []]"

definition rss_feed :: "element list \<Rightarrow> element" where
  "rss_feed its = Element (ustr ''rss'') None [Element (ustr ''channel'') None its]"

text \<open>A record with query, title and link, the other two cells empty.\<close>

definition news_rec :: "pystr \<Rightarrow> pystr \<Rightarrow> pystr \<Rightarrow> csv_rec" where
  "news_rec q t l = Rec [ustr ''GoogleNews:'' @ q, q, t, l, [], []]"

text \<open>
  An environment for examples: the response to a query is the query itself, which the
  parser \<open>feeds\<close> turns into a tree; the clock stands still; the query file holds
  \<open>qtext\<close>.
\<close>

definition demo_env :: "(pystr \<Rightarrow> exn + element) \<Rightarrow> pystr \<Rightarrow> env" where
  "demo_env feeds qtext =
     \<lparr>fromstring = feeds, http_get = (\<lambda>i q. Inr q), now_jst_iso = (\<lambda>i k. []), jst_today = 0,
      QUERY_FILE = Text qtext, MAX_ITEMS_PER_QUERY = 60\<rparr>"

text \<open>The feeds of the two-query scenario, and a feed whose only entry has no link.\<close>

definition two_feeds :: "pystr \<Rightarrow> exn + element" where
  "two_feeds x =
     (if x = ustr ''A'' then
        Inr (rss_feed [rss_item (ustr ''T1'') (ustr ''L1''), rss_item (ustr ''T2'') (ustr ''L2'')])
      else if x = ustr ''B'' then
        Inr (rss_feed [rss_item (ustr ''T1'') (ustr ''L1''), rss_item [] (ustr ''L3'')])
      else Inl ParseError)"

definition two_env :: env where
  "two_env = demo_env two_feeds (ustr ''A\<newline>B'')"

definition two_file :: "csv_rec list" where
  "two_file =
     [Rec header,
      news_rec (ustr ''A'') (ustr ''T1'') (ustr ''L1''),
      news_rec (ustr ''A'') (ustr ''T2'') (ustr ''L2'')]"

definition linkless_feed :: "pystr \<Rightarrow> exn + element" where
  "linkless_feed x =
     Inr (rss_feed [Element (ustr ''item'') None [Element (ustr ''title'') (Some (ustr ''T1'')) []]])"

definition linkless_env :: env where
  "linkless_env = demo_env linkless_feed (ustr ''A'')"

definition linkless_item :: NewsItem where
  "linkless_item =
     \<lparr>query = ustr ''A'', title = ustr ''T1'', link = [], published = [], collected_jst = []\<rparr>"

text \<open>A feed that starts with a titleless entry, followed by two entries with a title.\<close>

definition blank_first_feed :: "pystr \<Rightarrow> exn + element" where
  "blank_first_feed x =
     Inr (rss_feed [rss_item (ustr '' '') (ustr ''L0''), rss_item (ustr ''T1'') (ustr ''L1''),
                    rss_item (ustr ''T2'') (ustr ''L2'')])"


section \<open>Lemmas\<close>

subsection \<open>Strings\<close>

lemma dropWhile_all_Nil: "(\<forall>x\<in>set (dropWhile P xs). P x) \<longleftrightarrow> dropWhile P xs = []"
  by (metis hd_dropWhile hd_in_set empty_iff set_empty)

lemma strip_Nil_iff: "strip s = [] \<longleftrightarrow> (\<forall>c\<in>set s. isspace c)"
proof -
  have "strip s = [] \<longleftrightarrow> (\<forall>x\<in>set (dropWhile isspace s). isspace x)"
    by (simp add: strip_def dropWhile_eq_Nil_conv)
  also have "\<dots> \<longleftrightarrow> dropWhile isspace s = []" by (rule dropWhile_all_Nil)
  also have "\<dots> \<longleftrightarrow> (\<forall>c\<in>set s. isspace c)" by (simp add: dropWhile_eq_Nil_conv)
  finally show ?thesis .
qed

lemma strip_prefix: "\<exists>zs. dropWhile isspace s = strip s @ zs"
proof -
  let ?a = "dropWhile isspace s"
  have "strip s @ rev (takeWhile isspace (rev ?a))
          = rev (takeWhile isspace (rev ?a) @ dropWhile isspace (rev ?a))"
    by (simp only: strip_def rev_append)
  also have "\<dots> = ?a" by (simp only: takeWhile_dropWhile_id rev_rev_ident)
  finally show ?thesis by metis
qed

lemma dropWhile_strip: "dropWhile isspace (strip s) = strip s"
proof (cases "strip s")
  case Nil
  then show ?thesis by simp
next
  case (Cons c cs)
  obtain zs where z: "dropWhile isspace s = strip s @ zs" using strip_prefix by blast
  then have "dropWhile isspace s \<noteq> []" using Cons by simp
  then have "\<not> isspace (hd (dropWhile isspace s))" by (rule hd_dropWhile)
  then have "\<not> isspace c" using z Cons by simp
  then show ?thesis using Cons by simp
qed

lemma strip_idem: "strip (strip s) = strip s"
proof -
  have "strip (strip s) = rev (dropWhile isspace (rev (strip s)))"
    by (simp add: strip_def[of "strip s"] dropWhile_strip)
  also have "\<dots> = rev (dropWhile isspace (dropWhile isspace (rev (dropWhile isspace s))))"
    by (simp add: strip_def)
  also have "\<dots> = strip s" by (simp add: strip_def dropWhile_idem)
  finally show ?thesis .
qed

lemma strip_Nil: "strip [] = []"
  by (simp add: strip_def)

lemma strip_values:
  "strip (ustr ''T1'') = ustr ''T1''" "strip (ustr ''T2'') = ustr ''T2''"
  "strip (ustr ''L1'') = ustr ''L1''" "strip (ustr ''L2'') = ustr ''L2''"
  by (simp_all add: strip_def isspace_def ustr_def)

subsection \<open>The parser\<close>

lemma titleless_strip: "titleless it \<longleftrightarrow> strip (or_empty (findtext it (ustr ''title''))) = []"
  by (simp add: titleless_def strip_Nil_iff)

lemma length_parse_items:
  "length (parse_items now k q es) = length (filter (\<lambda>it. \<not> titleless it) es)"
  by (induction es arbitrary: k) (auto simp: Let_def titleless_strip)

lemma title_parse_items:
  "map title (parse_items now k q es) =
     map (\<lambda>it. strip (or_empty (findtext it (ustr ''title'')))) (filter (\<lambda>it. \<not> titleless it) es)"
  by (induction es arbitrary: k) (auto simp: Let_def titleless_strip)

lemma parse_items_append:
  "parse_items now k q (xs @ ys) = parse_items now k q xs @ parse_items now (k + length xs) q ys"
  by (induction xs arbitrary: k) (auto simp: Let_def)

lemma parse_items_fields:
  "it \<in> set (parse_items now k q es) \<Longrightarrow>
     title it \<noteq> [] \<and> strip (title it) = title it \<and> strip (link it) = link it \<and> query it = q"
  by (induction es arbitrary: k) (auto simp: Let_def strip_idem split: if_splits)

lemma length_slice_to: "0 \<le> n \<Longrightarrow> length (slice_to xs n) \<le> nat n"
  by (simp add: slice_to_def)

lemma slice_to_two: "2 \<le> n \<Longrightarrow> slice_to [a, b] n = [a, b]"
  by (simp add: slice_to_def)

lemma find_channel_feed: "find_elem (rss_feed its) (ustr ''channel'') = Some (Element (ustr ''channel'') None its)"
  by (simp add: find_elem_def findall_def rss_feed_def)

lemma rss_item_texts:
  "findtext (rss_item t l) (ustr ''title'') = Some t"
  "findtext (rss_item t l) (ustr ''link'') = Some l"
  "findtext (rss_item t l) (ustr ''pubDate'') = None"
  by (simp_all add: findtext_def find_elem_def findall_def rss_item_def ustr_def)

lemma channel_items:
  "findall (Element (ustr ''channel'') None [rss_item a b, rss_item c d]) (ustr ''item'')
     = [rss_item a b, rss_item c d]"
  by (simp add: findall_def rss_item_def)

lemma titleless_skipped:
  "titleless it \<Longrightarrow> parse_items now k q (xs @ it # ys)
     = parse_items now k q xs @ parse_items now (Suc (k + length xs)) q ys"
  by (simp add: parse_items_append titleless_strip)

lemma parse_items_keys:
  "map item_key (parse_items now k q es) = map item_key (parse_items now' k' q es)"
  by (induction es arbitrary: k k') (auto simp: Let_def item_key_def)

lemma parse_rss_keys:
  "map item_key (case parse_rss parser now x q n of Inl err \<Rightarrow> [] | Inr items \<Rightarrow> items)
     = map item_key (case parse_rss parser now' x q n of Inl err \<Rightarrow> [] | Inr items \<Rightarrow> items)"
  using parse_items_keys [of now 0 q _ now' 0]
  by (simp add: parse_rss_def split: sum.split option.split)

subsection \<open>The query file\<close>

lemma usable_lines_filter: "usable_lines ls = filter usable (map strip ls)"
  by (induction ls) (simp_all add: Let_def usable_def or_empty_def)

lemma queries_value:
  "load_queries (Text (ustr ''A\<newline> # c \<newline>\<newline>  B  \<newline>A'')) = Inr [ustr ''A'', ustr ''B'', ustr ''A'']"
  by (simp add: load_queries_def load_queries_from_file_def ustr_def splitlines_def linebreak_def
      strip_def isspace_def startswith_def or_empty_def Let_def)

subsection \<open>Reading the index\<close>

lemma read_rows_Rec:
  "read_rows fn seen (map Rec rows) = seen \<union> row_key fn ` {c \<in> set rows. keyed fn c}"
  by (induction rows arbitrary: seen) (auto simp: Let_def row_key_def keyed_def)

lemma read_rows_Bad:
  "read_rows fn seen (map Rec rows @ Bad # rest) = read_rows fn seen (map Rec rows)"
  by (induction rows arbitrary: seen) (auto simp: Let_def)

lemma read_rows_nonempty:
  "read_rows fn seen recs \<subseteq> seen \<union> {(t, l). t \<noteq> [] \<and> l \<noteq> []}"
proof (induction recs arbitrary: seen)
  case Nil
  show ?case by simp
next
  case (Cons r recs)
  show ?case
  proof (cases r)
    case Bad
    then show ?thesis by simp
  next
    case (Rec cells)
    let ?k = "row_key fn cells"
    have "read_rows fn (insert ?k seen) recs \<subseteq> insert ?k seen \<union> {(t, l). t \<noteq> [] \<and> l \<noteq> []}"
      by (rule Cons.IH)
    moreover have "read_rows fn seen recs \<subseteq> seen \<union> {(t, l). t \<noteq> [] \<and> l \<noteq> []}"
      by (rule Cons.IH)
    ultimately show ?thesis using Rec
      by (auto simp: Let_def row_key_def)
  qed
qed

lemma read_existing_set_nonempty:
  assumes "(t, l) \<in> read_existing_set f"
  shows "t \<noteq> [] \<and> l \<noteq> []"
proof -
  from assms have "(t, l) \<in> {} \<union> {(t, l). t \<noteq> [] \<and> l \<noteq> []}"
    using read_rows_nonempty [of _ "{}"]
    by (auto simp: read_existing_set_def split: option.splits list.splits csv_rec.splits)
  then show ?thesis by simp
qed

lemma row_fields_as_row:
  "row_fields (as_row it) =
     [ustr ''GoogleNews:'' @ query it, query it, title it, link it, published it, collected_jst it]"
  by (simp add: row_fields_def as_row_def header_def ustr_def)

lemma header_get_title:
  "dict_get (dict_row header [a, b, c, d, e, f]) (ustr ''title'') = Some c"
  by (simp add: dict_get_def dict_row_def header_def ustr_def)

lemma header_get_link:
  "dict_get (dict_row header [a, b, c, d, e, f]) (ustr ''link'') = Some d"
  by (simp add: dict_get_def dict_row_def header_def ustr_def)

lemma rec_key_item_rec: "rec_key (item_rec it) = item_key it"
  by (simp add: rec_key_def item_rec_def row_fields_as_row header_get_title header_get_link
      or_empty_def item_key_def)

lemma row_key_item: "trimmed it \<Longrightarrow> row_key header (row_fields (as_row it)) = item_key it"
  by (simp add: row_key_def row_fields_as_row header_get_title header_get_link or_empty_def
      item_key_def trimmed_def)

lemma keyed_item: "trimmed it \<Longrightarrow> keyed header (row_fields (as_row it)) \<longleftrightarrow> link it \<noteq> []"
  using row_key_item [of it]
  by (auto simp: keyed_def item_key_def trimmed_def row_fields_as_row)

lemma read_item_recs:
  assumes "\<forall>it\<in>set its. trimmed it"
  shows "read_rows header seen (map item_rec its) = seen \<union> {k \<in> item_key ` set its. snd k \<noteq> []}"
proof -
  have "map item_rec its = map Rec (map (\<lambda>it. row_fields (as_row it)) its)"
    by (simp add: item_rec_def)
  then have "read_rows header seen (map item_rec its)
      = seen \<union> row_key header ` {c \<in> set (map (\<lambda>it. row_fields (as_row it)) its). keyed header c}"
    by (simp only: read_rows_Rec)
  also have "row_key header ` {c \<in> set (map (\<lambda>it. row_fields (as_row it)) its). keyed header c}
      = {k \<in> item_key ` set its. snd k \<noteq> []}"
  proof (intro set_eqI iffI)
    fix k assume "k \<in> row_key header ` {c \<in> set (map (\<lambda>it. row_fields (as_row it)) its). keyed header c}"
    then obtain it where i: "it \<in> set its" "keyed header (row_fields (as_row it))"
      "k = row_key header (row_fields (as_row it))" by auto
    then have "trimmed it" using assms by blast
    then show "k \<in> {k \<in> item_key ` set its. snd k \<noteq> []}"
      using i by (auto simp: row_key_item keyed_item item_key_def)
  next
    fix k assume "k \<in> {k \<in> item_key ` set its. snd k \<noteq> []}"
    then obtain it where i: "it \<in> set its" "k = item_key it" "link it \<noteq> []"
      by (auto simp: item_key_def)
    then have t: "trimmed it" using assms by blast
    have "row_fields (as_row it) \<in> {c \<in> set (map (\<lambda>it. row_fields (as_row it)) its). keyed header c}"
      using i t by (auto simp: keyed_item)
    moreover have "k = row_key header (row_fields (as_row it))" using i t by (simp add: row_key_item)
    ultimately show "k \<in> row_key header ` {c \<in> set (map (\<lambda>it. row_fields (as_row it)) its). keyed header c}"
      by blast
  qed
  finally show ?thesis .
qed

lemma read_existing_set_written:
  assumes "\<forall>it\<in>set its. trimmed it"
  shows "read_existing_set (Some (Rec header # map item_rec its)) = {k \<in> item_key ` set its. snd k \<noteq> []}"
  using read_item_recs [OF assms, of "{}"] by (simp add: read_existing_set_def)

lemma file_keys_written: "file_keys (Some (Rec header # map item_rec its)) = map item_key its"
  by (simp add: file_keys_def rec_key_item_rec)

lemma filter_linked: "filter linked ks = filter (\<lambda>k. snd k \<noteq> []) ks"
  by (induction ks) (simp_all add: linked_def)

subsection \<open>The loop over the items and the queries\<close>

lemma dedup_items_Cons:
  "dedup_items seen (it # its) =
     (if item_key it \<in> seen then dedup_items seen its
      else (it # fst (dedup_items (insert (item_key it) seen) its),
            snd (dedup_items (insert (item_key it) seen) its)))"
  by (simp add: Let_def item_key_def split: prod.splits)

lemma dedup_items_seen: "snd (dedup_items seen items) = seen \<union> item_key ` set items"
  by (induction items arbitrary: seen) (auto simp: dedup_items_Cons simp del: dedup_items.simps(2))

lemma dedup_items_subset: "set (fst (dedup_items seen items)) \<subseteq> set items"
  by (induction items arbitrary: seen) (auto simp: dedup_items_Cons simp del: dedup_items.simps(2))

lemma dedup_items_keys:
  "item_key ` set (fst (dedup_items seen items)) = item_key ` set items - seen"
proof (induction items arbitrary: seen)
  case Nil
  show ?case by simp
next
  case (Cons it items)
  show ?case
  proof (cases "item_key it \<in> seen")
    case True
    then show ?thesis using Cons.IH [of seen]
      by (auto simp: dedup_items_Cons simp del: dedup_items.simps(2))
  next
    case False
    then show ?thesis using Cons.IH [of "insert (item_key it) seen"]
      by (auto simp: dedup_items_Cons simp del: dedup_items.simps(2))
  qed
qed

lemma dedup_items_distinct: "distinct (map item_key (fst (dedup_items seen items)))"
proof (induction items arbitrary: seen)
  case Nil
  show ?case by simp
next
  case (Cons it items)
  show ?case
  proof (cases "item_key it \<in> seen")
    case True
    then show ?thesis using Cons.IH [of seen]
      by (simp add: dedup_items_Cons del: dedup_items.simps(2))
  next
    case False
    have "item_key it \<notin> item_key ` set (fst (dedup_items (insert (item_key it) seen) items))"
      by (simp add: dedup_items_keys)
    then show ?thesis using False Cons.IH [of "insert (item_key it) seen"]
      by (simp add: dedup_items_Cons del: dedup_items.simps(2))
  qed
qed

lemma collect_queries_rows:
  "fst (collect_queries e i seen qs) = map as_row (kept_items e i seen qs)"
  by (induction qs arbitrary: i seen) (simp_all add: Let_def split_beta)

lemma kept_items_distinct:
  "distinct (map item_key (kept_items e i seen qs)) \<and>
   item_key ` set (kept_items e i seen qs) \<inter> seen = {}"
proof (induction qs arbitrary: i seen)
  case Nil
  show ?case by simp
next
  case (Cons q qs)
  let ?items = "fetch_items e i q"
  let ?seen1 = "snd (dedup_items seen ?items)"
  have s1: "?seen1 = seen \<union> item_key ` set ?items" by (rule dedup_items_seen)
  have k: "item_key ` set (fst (dedup_items seen ?items)) = item_key ` set ?items - seen"
    by (rule dedup_items_keys)
  have ih: "distinct (map item_key (kept_items e (Suc i) ?seen1 qs)) \<and>
     item_key ` set (kept_items e (Suc i) ?seen1 qs) \<inter> ?seen1 = {}"
    by (rule Cons.IH)
  have d: "distinct (map item_key (fst (dedup_items seen ?items)))" by (rule dedup_items_distinct)
  have "set (map item_key (fst (dedup_items seen ?items)))
          \<inter> set (map item_key (kept_items e (Suc i) ?seen1 qs)) = {}"
    using ih k s1 by auto
  moreover have "item_key ` set (kept_items e (Suc i) ?seen1 qs) \<inter> seen = {}"
    using ih s1 by auto
  ultimately show ?case using d ih k by auto
qed

lemma kept_items_keeps:
  "k \<notin> seen \<Longrightarrow> j < length qs \<Longrightarrow> it \<in> set (fetch_items e (i + j) (qs ! j)) \<Longrightarrow> item_key it = k \<Longrightarrow>
     k \<in> item_key ` set (kept_items e i seen qs)"
proof (induction qs arbitrary: i seen j)
  case Nil
  then show ?case by simp
next
  case (Cons q qs)
  let ?items = "fetch_items e i q"
  let ?seen1 = "snd (dedup_items seen ?items)"
  show ?case
  proof (cases "k \<in> item_key ` set ?items")
    case True
    then have "k \<in> item_key ` set (fst (dedup_items seen ?items))"
      using Cons.prems(1) by (simp add: dedup_items_keys)
    then show ?thesis by auto
  next
    case False
    then have ns: "k \<notin> ?seen1" using Cons.prems(1) by (simp add: dedup_items_seen)
    have "j \<noteq> 0" using False Cons.prems(3,4) by (cases j) auto
    then obtain j' where j: "j = Suc j'" by (cases j) auto
    have "k \<in> item_key ` set (kept_items e (Suc i) ?seen1 qs)"
      using Cons.prems(2,3,4) j by (intro Cons.IH [OF ns, of j']) auto
    then show ?thesis by auto
  qed
qed

lemma kept_items_all_seen:
  "(\<forall>j < length qs. item_key ` set (fetch_items e (i + j) (qs ! j)) \<subseteq> seen) \<Longrightarrow>
     kept_items e i seen qs = []"
proof (induction qs arbitrary: i)
  case Nil
  show ?case by simp
next
  case (Cons q qs)
  have a: "item_key ` set (fetch_items e i q) \<subseteq> seen" using Cons.prems by force
  then have "item_key ` set (fst (dedup_items seen (fetch_items e i q))) = {}"
    by (auto simp: dedup_items_keys)
  then have f: "fst (dedup_items seen (fetch_items e i q)) = []" by simp
  have s: "snd (dedup_items seen (fetch_items e i q)) = seen" using a by (auto simp: dedup_items_seen)
  have "\<forall>j<length qs. item_key ` set (fetch_items e (Suc i + j) (qs ! j)) \<subseteq> seen"
    using Cons.prems by force
  then have "kept_items e (Suc i) seen qs = []" by (rule Cons.IH)
  then show ?case using f s by simp
qed

lemma parse_rss_trimmed:
  assumes "parse_rss parser now x q n = Inr items" and "it \<in> set items"
  shows "trimmed it \<and> query it = q"
proof (cases "parser x")
  case (Inl err)
  then show ?thesis using assms by (simp add: parse_rss_def)
next
  case (Inr root)
  show ?thesis
  proof (cases "find_elem root (ustr ''channel'')")
    case None
    then show ?thesis using assms Inr by (simp add: parse_rss_def)
  next
    case (Some channel)
    then have "items = parse_items now 0 q (slice_to (findall channel (ustr ''item'')) n)"
      using assms Inr by (simp add: parse_rss_def)
    then show ?thesis using assms(2) parse_items_fields unfolding trimmed_def by blast
  qed
qed

lemma fetch_items_trimmed:
  assumes "it \<in> set (fetch_items e i q)"
  shows "trimmed it"
proof (cases "http_get e i q")
  case (Inl err)
  then show ?thesis using assms by (simp add: fetch_items_def)
next
  case (Inr x)
  show ?thesis
  proof (cases "parse_rss (fromstring e) (now_jst_iso e i) x q (MAX_ITEMS_PER_QUERY e)")
    case (Inl err)
    then show ?thesis using assms Inr by (simp add: fetch_items_def)
  next
    case (Inr items)
    then have "it \<in> set items" using assms \<open>http_get e i q = Inr x\<close> by (simp add: fetch_items_def)
    then show ?thesis using parse_rss_trimmed [OF Inr] by blast
  qed
qed

lemma kept_items_fetched:
  "it \<in> set (kept_items e i seen qs) \<Longrightarrow> \<exists>j<length qs. it \<in> set (fetch_items e (i + j) (qs ! j))"
proof (induction qs arbitrary: i seen)
  case Nil
  then show ?case by simp
next
  case (Cons q qs)
  show ?case
  proof (cases "it \<in> set (fst (dedup_items seen (fetch_items e i q)))")
    case True
    then have "it \<in> set (fetch_items e (i + 0) ((q # qs) ! 0))"
      using dedup_items_subset by fastforce
    then show ?thesis by blast
  next
    case False
    then have "it \<in> set (kept_items e (Suc i) (snd (dedup_items seen (fetch_items e i q))) qs)"
      using Cons.prems by simp
    then obtain j where "j < length qs" "it \<in> set (fetch_items e (Suc i + j) (qs ! j))"
      using Cons.IH by blast
    then have "Suc j < length (q # qs) \<and> it \<in> set (fetch_items e (i + Suc j) ((q # qs) ! Suc j))"
      by simp
    then show ?thesis by blast
  qed
qed

lemma kept_items_trimmed: "it \<in> set (kept_items e i seen qs) \<Longrightarrow> trimmed it"
  using kept_items_fetched fetch_items_trimmed by blast

lemma fetch_items_clock:
  "map item_key (fetch_items (e\<lparr>now_jst_iso := clock\<rparr>) i q) = map item_key (fetch_items e i q)"
proof (cases "http_get e i q")
  case (Inl err)
  then show ?thesis by (simp add: fetch_items_def)
next
  case (Inr x)
  then show ?thesis
    using parse_rss_keys [of "fromstring e" "clock i" x q "MAX_ITEMS_PER_QUERY e" "now_jst_iso e i"]
    by (simp add: fetch_items_def)
qed

lemma fetch_keys_clock:
  "item_key ` set (fetch_items (e\<lparr>now_jst_iso := clock\<rparr>) i q) = item_key ` set (fetch_items e i q)"
  using fetch_items_clock [where e = e and clock = clock and i = i and q = q] by (metis set_map)

lemma fetched_key_seen_or_kept:
  assumes "j < length qs" and "it \<in> set (fetch_items e (i + j) (qs ! j))"
  shows "item_key it \<in> seen \<union> item_key ` set (kept_items e i seen qs)"
  using assms kept_items_keeps [where k = "item_key it" and seen = seen and j = j and it = it] by blast

lemma trimmed_not_blank: "trimmed it \<Longrightarrow> title it \<noteq> [] \<and> \<not> (\<forall>c\<in>set (title it). isspace c)"
  using strip_Nil_iff [of "title it"] by (auto simp: trimmed_def)

subsection \<open>The files the script writes\<close>

lemma append_rows_items:
  "append_rows f (map as_row its) =
     Some ((case f of None \<Rightarrow> [Rec header] | Some old \<Rightarrow> old) @ map item_rec its)"
  by (simp add: append_rows_def item_rec_def comp_def split: option.split)

lemma all_new_rows_kept:
  "all_new_rows e f qs = map as_row (kept_items e 1 (read_existing_set f) qs)"
  by (simp add: all_new_rows_def collect_queries_rows)

lemma wf_file_append:
  assumes "wf_file f"
  shows "wf_file (append_rows f (all_new_rows e f qs))"
proof -
  let ?kept = "kept_items e 1 (read_existing_set f) qs"
  have tk: "\<forall>it\<in>set ?kept. trimmed it" using kept_items_trimmed by blast
  have dk: "distinct (map item_key ?kept)"
    and xk: "item_key ` set ?kept \<inter> read_existing_set f = {}"
    using kept_items_distinct [of e 1 "read_existing_set f" qs] by auto
  show ?thesis
  proof (cases f)
    case None
    then have "append_rows f (all_new_rows e f qs) = Some (Rec header # map item_rec ?kept)"
      by (simp add: all_new_rows_kept append_rows_items)
    moreover have "distinct (filter (\<lambda>k. snd k \<noteq> []) (map item_key ?kept))"
      using dk by (rule distinct_filter)
    ultimately show ?thesis using tk by (auto simp: wf_file_def filter_linked)
  next
    case (Some recs)
    then obtain its where r: "recs = Rec header # map item_rec its"
      and t: "\<forall>it\<in>set its. trimmed it"
      and d: "distinct (filter (\<lambda>k. snd k \<noteq> []) (map item_key its))"
      using assms by (auto simp: wf_file_def filter_linked)
    have s: "read_existing_set f = {k \<in> item_key ` set its. snd k \<noteq> []}"
      using Some r read_existing_set_written [OF t] by simp
    have a: "append_rows f (all_new_rows e f qs) = Some (Rec header # map item_rec (its @ ?kept))"
      using Some r by (simp add: all_new_rows_kept append_rows_items)
    have "set (filter (\<lambda>k. snd k \<noteq> []) (map item_key its))
        \<inter> set (filter (\<lambda>k. snd k \<noteq> []) (map item_key ?kept)) = {}"
      using xk s by auto
    then have "distinct (filter (\<lambda>k. snd k \<noteq> []) (map item_key (its @ ?kept)))"
      using d dk by (simp add: distinct_filter)
    moreover have "\<forall>it\<in>set (its @ ?kept). trimmed it" using t tk by auto
    ultimately show ?thesis unfolding a wf_file_def filter_linked by (simp only: option.case) blast
  qed
qed

lemma wf_collect_daily:
  assumes "\<forall>d. wf_file (st d)" and "collect_daily e day st = Inr (d, st')"
  shows "\<forall>d. wf_file (st' d)"
  using assms wf_file_append
  by (auto simp: collect_daily_def Let_def split: sum.splits if_splits)

lemma wf_run_all: "\<forall>d. wf_file (st d) \<Longrightarrow> \<forall>d. wf_file (run_all st runs d)"
proof (induction runs arbitrary: st)
  case Nil
  then show ?case by simp
next
  case (Cons r runs)
  obtain e day where r: "r = (e, day)" by (cases r)
  show ?case
  proof (cases "collect_daily e day st")
    case (Inl x)
    then show ?thesis using Cons r by simp
  next
    case (Inr p)
    obtain d st' where p: "p = (d, st')" by (cases p)
    have "\<forall>d. wf_file (st' d)" using wf_collect_daily [OF Cons.prems] Inr p by blast
    then have "\<forall>d. wf_file (run_all st' runs d)" by (rule Cons.IH)
    then show ?thesis using Inr p r by simp
  qed
qed

lemma wf_reachable: "wf_file (run_all no_files runs d)"
  using wf_run_all [of no_files runs] by (simp add: wf_file_def no_files_def)

lemma written_titles:
  "k \<in> set (file_keys (run_all no_files runs d)) \<Longrightarrow> fst k \<noteq> [] \<and> \<not> (\<forall>c\<in>set (fst k). isspace c)"
proof (cases "run_all no_files runs d")
  case None
  assume "k \<in> set (file_keys (run_all no_files runs d))"
  then show ?thesis using None by (simp add: file_keys_def)
next
  case (Some recs)
  assume k: "k \<in> set (file_keys (run_all no_files runs d))"
  obtain its where r: "recs = Rec header # map item_rec its" and t: "\<forall>it\<in>set its. trimmed it"
    using Some wf_reachable [of runs d] by (auto simp: wf_file_def filter_linked)
  then obtain it where "it \<in> set its" "k = item_key it"
    using k Some by (auto simp: file_keys_written)
  then show ?thesis using t trimmed_not_blank [of it] by (auto simp: item_key_def)
qed

lemma rerun_index:
  assumes wf: "wf_file f"
    and links: "\<forall>it\<in>set kept. link it \<noteq> []"
    and tr: "\<forall>it\<in>set kept. trimmed it"
  shows "read_existing_set (if map as_row kept \<noteq> [] then append_rows f (map as_row kept) else f)
           = read_existing_set f \<union> item_key ` set kept"
proof (cases "kept = []")
  case True
  then show ?thesis by simp
next
  case False
  have nk: "{k \<in> item_key ` set kept. snd k \<noteq> []} = item_key ` set kept"
    using links by (auto simp: item_key_def)
  show ?thesis
  proof (cases f)
    case None
    then have "append_rows f (map as_row kept) = Some (Rec header # map item_rec kept)"
      by (simp add: append_rows_items)
    then show ?thesis using False None read_existing_set_written [OF tr] nk
      by (simp add: read_existing_set_def)
  next
    case (Some recs)
    then obtain its where r: "recs = Rec header # map item_rec its"
      and t: "\<forall>it\<in>set its. trimmed it"
      using wf by (auto simp: wf_file_def filter_linked)
    have t2: "\<forall>it\<in>set (its @ kept). trimmed it" using t tr by auto
    have "append_rows f (map as_row kept) = Some (Rec header # map item_rec (its @ kept))"
      using Some r by (simp add: append_rows_items)
    moreover have "read_existing_set f = {k \<in> item_key ` set its. snd k \<noteq> []}"
      using Some r read_existing_set_written [OF t] by simp
    moreover have "read_existing_set (Some (Rec header # map item_rec (its @ kept)))
        = {k \<in> item_key ` set (its @ kept). snd k \<noteq> []}"
      by (rule read_existing_set_written [OF t2])
    ultimately show ?thesis using False nk by auto
  qed
qed

subsection \<open>The examples, evaluated\<close>

lemma scenario_run:
  assumes qs: "load_queries (QUERY_FILE e) = Inr [ustr ''A'', ustr ''B'']"
    and ga: "http_get e 1 (ustr ''A'') = Inr xa"
    and pa: "fromstring e xa = Inr (rss_feed [rss_item T1 L1, rss_item T2 L2])"
    and gb: "http_get e 2 (ustr ''B'') = Inr xb"
    and pb: "fromstring e xb = Inr (rss_feed [rss_item T1 L1, rss_item blank L3])"
    and t1: "strip T1 = T1" "T1 \<noteq> []" and l1: "strip L1 = L1"
    and t2: "strip T2 = T2" "T2 \<noteq> []" and l2: "strip L2 = L2"
    and ne: "(T1, L1) \<noteq> (T2, L2)"
    and bl: "strip blank = []"
    and cap: "2 \<le> MAX_ITEMS_PER_QUERY e"
    and new: "st d = None"
  shows "collect_daily e (Some d) st =
     Inr (d, st(d := Some
       [Rec header,
        Rec [ustr ''GoogleNews:'' @ ustr ''A'', ustr ''A'', T1, L1, [], now_jst_iso e 1 0],
        Rec [ustr ''GoogleNews:'' @ ustr ''A'', ustr ''A'', T2, L2, [], now_jst_iso e 1 1]]))"
proof -
  let ?i1 = "\<lparr>query = ustr ''A'', title = T1, link = L1, published = [],
     collected_jst = now_jst_iso e 1 0\<rparr>"
  let ?i2 = "\<lparr>query = ustr ''A'', title = T2, link = L2, published = [],
     collected_jst = now_jst_iso e 1 1\<rparr>"
  let ?i3 = "\<lparr>query = ustr ''B'', title = T1, link = L1, published = [],
     collected_jst = now_jst_iso e 2 0\<rparr>"
  have fa: "fetch_items e 1 (ustr ''A'') = [?i1, ?i2]"
    using ga pa t1 l1 t2 l2 cap
    by (simp add: fetch_items_def parse_rss_def find_channel_feed channel_items slice_to_two
        rss_item_texts or_empty_def strip_Nil)
  have fb: "fetch_items e 2 (ustr ''B'') = [?i3]"
    using gb pb t1 l1 bl cap
    by (simp add: fetch_items_def parse_rss_def find_channel_feed channel_items slice_to_two
        rss_item_texts or_empty_def strip_Nil)
  have fa': "fetch_items e (Suc 0) (ustr ''A'') = [?i1, ?i2]" using fa by simp
  have fb': "fetch_items e (Suc (Suc 0)) (ustr ''B'') = [?i3]"
    using fb by (simp add: numeral_2_eq_2)
  have k: "kept_items e 1 {} [ustr ''A'', ustr ''B''] = [?i1, ?i2]"
    using ne by (auto simp: fa' fb' Let_def)
  have "all_new_rows e (st d) [ustr ''A'', ustr ''B''] = [as_row ?i1, as_row ?i2]"
    using new k by (simp add: all_new_rows_kept read_existing_set_def)
  then show ?thesis using qs new
    by (simp add: collect_daily_def append_rows_def row_fields_as_row)
qed

lemma blank_first_parse:
  "blank_first_feed x =
     Inr (rss_feed [rss_item (ustr '' '') (ustr ''L0''), rss_item (ustr ''T1'') (ustr ''L1''),
                    rss_item (ustr ''T2'') (ustr ''L2'')])"
  by (simp add: blank_first_feed_def)

lemma blank_first_value:
  "parse_rss blank_first_feed (\<lambda>k. []) (ustr ''<rss>'') (ustr ''A'') 2
     = Inr [\<lparr>query = ustr ''A'', title = ustr ''T1'', link = ustr ''L1'', published = [],
             collected_jst = []\<rparr>]"
  by (simp add: blank_first_feed_def parse_rss_def find_elem_def findall_def rss_feed_def rss_item_def
      ustr_def slice_to_def findtext_def or_empty_def strip_def isspace_def)

lemma blank_titleless: "titleless (rss_item (ustr '' '') (ustr ''L0''))"
  unfolding titleless_def rss_item_texts or_empty_def
  by (simp add: ustr_def isspace_def)

lemma two_titles: "ustr ''T1'' \<noteq> []" "ustr ''T2'' \<noteq> []"
  by (simp_all add: ustr_def)

lemma two_links_ne: "ustr ''L1'' \<noteq> []" "ustr ''L2'' \<noteq> []"
  by (simp_all add: ustr_def)

lemma bad_file_index:
  "read_existing_set (Some [Rec header, news_rec (ustr ''A'') (ustr ''T1'') (ustr ''L1''), Bad,
      news_rec (ustr ''A'') (ustr ''T2'') (ustr ''L2'')]) = {(ustr ''T1'', ustr ''L1'')}"
  by (simp add: read_existing_set_def news_rec_def header_get_title header_get_link or_empty_def
      strip_values two_titles two_links_ne Let_def)

lemma linkless_row_index:
  "read_existing_set (Some [Rec header, news_rec (ustr ''A'') (ustr ''T1'') (ustr ''L1''),
      news_rec (ustr ''A'') (ustr ''T2'') []]) = {(ustr ''T1'', ustr ''L1'')}"
  by (simp add: read_existing_set_def news_rec_def header_get_title header_get_link or_empty_def
      strip_values strip_Nil two_titles two_links_ne Let_def)

lemma two_queries: "load_queries (QUERY_FILE two_env) = Inr [ustr ''A'', ustr ''B'']"
  by (simp add: two_env_def demo_env_def load_queries_def load_queries_from_file_def ustr_def
      splitlines_def linebreak_def strip_def isspace_def startswith_def or_empty_def Let_def)

lemma two_get_A: "http_get two_env 1 (ustr ''A'') = Inr (ustr ''A'')"
  by (simp add: two_env_def demo_env_def)

lemma two_parse_A:
  "fromstring two_env (ustr ''A'')
     = Inr (rss_feed [rss_item (ustr ''T1'') (ustr ''L1''), rss_item (ustr ''T2'') (ustr ''L2'')])"
  by (simp add: two_env_def demo_env_def two_feeds_def)

lemma two_get_B: "http_get two_env 2 (ustr ''B'') = Inr (ustr ''B'')"
  by (simp add: two_env_def demo_env_def)

lemma two_parse_B:
  "fromstring two_env (ustr ''B'')
     = Inr (rss_feed [rss_item (ustr ''T1'') (ustr ''L1''), rss_item [] (ustr ''L3'')])"
  by (simp add: two_env_def demo_env_def two_feeds_def ustr_def)

lemma two_keys_differ: "(ustr ''T1'', ustr ''L1'') \<noteq> (ustr ''T2'', ustr ''L2'')"
  by (simp add: ustr_def)

lemma two_cap: "2 \<le> MAX_ITEMS_PER_QUERY two_env"
  by (simp add: two_env_def demo_env_def)

lemma two_fetch_A:
  "fetch_items two_env i (ustr ''A'') =
     [\<lparr>query = ustr ''A'', title = ustr ''T1'', link = ustr ''L1'', published = [], collected_jst = []\<rparr>,
      \<lparr>query = ustr ''A'', title = ustr ''T2'', link = ustr ''L2'', published = [], collected_jst = []\<rparr>]"
proof -
  have "http_get two_env i (ustr ''A'') = Inr (ustr ''A'')" by (simp add: two_env_def demo_env_def)
  moreover have "now_jst_iso two_env i = (\<lambda>k. [])" by (simp add: two_env_def demo_env_def)
  ultimately show ?thesis
    using two_cap
    by (simp add: fetch_items_def parse_rss_def two_parse_A find_channel_feed channel_items
        slice_to_two rss_item_texts or_empty_def strip_Nil strip_values two_titles)
qed

lemma two_fetch_B:
  "fetch_items two_env i (ustr ''B'') =
     [\<lparr>query = ustr ''B'', title = ustr ''T1'', link = ustr ''L1'', published = [], collected_jst = []\<rparr>]"
proof -
  have "http_get two_env i (ustr ''B'') = Inr (ustr ''B'')" by (simp add: two_env_def demo_env_def)
  moreover have "now_jst_iso two_env i = (\<lambda>k. [])" by (simp add: two_env_def demo_env_def)
  ultimately show ?thesis
    using two_cap
    by (simp add: fetch_items_def parse_rss_def two_parse_B find_channel_feed channel_items
        slice_to_two rss_item_texts or_empty_def strip_Nil strip_values two_titles)
qed

lemma two_links:
  "\<forall>j<length [ustr ''A'', ustr ''B''].
     \<forall>it\<in>set (fetch_items two_env (Suc j) ([ustr ''A'', ustr ''B''] ! j)). link it \<noteq> []"
proof (intro allI impI)
  fix j assume "j < length [ustr ''A'', ustr ''B'']"
  then have "j = 0 \<or> j = 1" by auto
  then show "\<forall>it\<in>set (fetch_items two_env (Suc j) ([ustr ''A'', ustr ''B''] ! j)). link it \<noteq> []"
    by (auto simp: two_fetch_A two_fetch_B two_links_ne)
qed

lemma two_index:
  "read_existing_set (Some two_file) = {(ustr ''T1'', ustr ''L1''), (ustr ''T2'', ustr ''L2'')}"
  by (auto simp: two_file_def read_existing_set_def news_rec_def header_get_title header_get_link
      or_empty_def strip_values two_titles two_links_ne Let_def)

lemma two_rows_first:
  "all_new_rows two_env None [ustr ''A'', ustr ''B''] =
     [as_row \<lparr>query = ustr ''A'', title = ustr ''T1'', link = ustr ''L1'', published = [], collected_jst = []\<rparr>,
      as_row \<lparr>query = ustr ''A'', title = ustr ''T2'', link = ustr ''L2'', published = [], collected_jst = []\<rparr>]"
  using two_keys_differ
  by (auto simp: all_new_rows_kept read_existing_set_def two_fetch_A two_fetch_B Let_def)

lemma two_rows_again: "all_new_rows two_env (Some two_file) [ustr ''A'', ustr ''B''] = []"
  by (simp add: all_new_rows_kept two_index two_fetch_A two_fetch_B Let_def)

lemma two_first_run:
  "collect_daily two_env (Some 0) no_files = Inr (0, no_files(0 := Some two_file))"
  using two_rows_first
  by (simp add: collect_daily_def two_queries no_files_def append_rows_def row_fields_as_row
      two_file_def news_rec_def)

lemma two_second_run:
  "collect_daily two_env (Some 0) (no_files(0 := Some two_file))
     = Inr (0, no_files(0 := Some two_file))"
  using two_rows_again by (simp add: collect_daily_def two_queries)

lemma two_runs:
  "run_all no_files [(two_env, Some 0), (two_env, Some 0)] 0 = Some two_file"
  by (simp add: two_first_run two_second_run)

lemma two_keys:
  "file_keys (run_all no_files [(two_env, Some 0), (two_env, Some 0)] 0)
     = [(ustr ''T1'', ustr ''L1''), (ustr ''T2'', ustr ''L2'')]"
  unfolding two_runs
  by (simp add: file_keys_def two_file_def news_rec_def rec_key_def header_get_title header_get_link
      or_empty_def)

lemma linkless_queries: "load_queries (QUERY_FILE linkless_env) = Inr [ustr ''A'']"
  by (simp add: linkless_env_def demo_env_def load_queries_def load_queries_from_file_def ustr_def
      splitlines_def linebreak_def strip_def isspace_def startswith_def or_empty_def Let_def)

lemma linkless_fetch: "fetch_items linkless_env i (ustr ''A'') = [linkless_item]"
  by (simp add: linkless_env_def demo_env_def fetch_items_def linkless_feed_def parse_rss_def
      rss_feed_def findall_def slice_to_def findtext_def find_elem_def or_empty_def
      strip_def isspace_def ustr_def linkless_item_def)

lemma linkless_index:
  "read_existing_set (Some (Rec header # map item_rec (replicate n linkless_item))) = {}"
proof -
  have "\<forall>it\<in>set (replicate n linkless_item). trimmed it"
    by (simp add: trimmed_def linkless_item_def strip_def isspace_def ustr_def)
  then have "read_existing_set (Some (Rec header # map item_rec (replicate n linkless_item)))
      = {k \<in> item_key ` set (replicate n linkless_item). snd k \<noteq> []}"
    by (rule read_existing_set_written)
  also have "\<dots> = {}" by (auto simp: item_key_def linkless_item_def)
  finally show ?thesis .
qed

lemma linkless_rows_new: "all_new_rows linkless_env None [ustr ''A''] = [as_row linkless_item]"
  by (simp add: all_new_rows_kept read_existing_set_def linkless_fetch Let_def)

lemma linkless_rows_again:
  "all_new_rows linkless_env (Some (Rec header # map item_rec (replicate n linkless_item))) [ustr ''A'']
     = [as_row linkless_item]"
  using linkless_index [of n]
  by (simp add: all_new_rows_kept linkless_fetch Let_def)

lemma linkless_first_run:
  "collect_daily linkless_env (Some 0) no_files
     = Inr (0, no_files(0 := Some [Rec header, item_rec linkless_item]))"
  using linkless_rows_new
  by (simp add: collect_daily_def linkless_queries no_files_def append_rows_def item_rec_def)

lemma linkless_second_run:
  "collect_daily linkless_env (Some 0) (no_files(0 := Some [Rec header, item_rec linkless_item]))
     = Inr (0, no_files(0 := Some [Rec header, item_rec linkless_item, item_rec linkless_item]))"
  using linkless_rows_again [of 1]
  by (simp add: collect_daily_def linkless_queries append_rows_def item_rec_def)

lemma linkless_one_run:
  "run_all no_files [(linkless_env, Some 0)] 0 = Some [Rec header, item_rec linkless_item]"
  by (simp add: linkless_first_run)

lemma linkless_two_runs:
  "run_all no_files [(linkless_env, Some 0), (linkless_env, Some 0)] 0
     = Some [Rec header, item_rec linkless_item, item_rec linkless_item]"
  by (simp add: linkless_first_run linkless_second_run)

section \<open>The claims\<close>

subsection \<open>C1: duplicate identity keys within a day\<close>

text \<open>
  Claim C1 says that no two rows of a day's dataset share the key (title, link), whatever
  runs produced it. The script does not keep this for rows without a link: the run
  that finds an entry with a title and no link writes a row with the key
  \<open>(T1, "")\<close>, the next run does not load that key and writes the row again.
\<close>

theorem empty_link_row_repeats:
  "\<not> distinct (file_keys (run_all no_files [(linkless_env, Some 0), (linkless_env, Some 0)] 0))"
  unfolding linkless_two_runs by (simp add: file_keys_def rec_key_item_rec)

text \<open>
  Claim C1, amended: in every day's dataset produced by any sequence of runs, starting
  without files, no two rows that have a non-empty link share the key (title, link).
\<close>

theorem linked_keys_distinct:
  "distinct (filter linked (file_keys (run_all no_files runs d)))"
proof (cases "run_all no_files runs d")
  case None
  then show ?thesis by (simp add: file_keys_def)
next
  case (Some recs)
  then obtain its where "recs = Rec header # map item_rec its"
    and "distinct (filter linked (map item_key its))"
    using wf_reachable [of runs d] by (auto simp: wf_file_def)
  then show ?thesis using Some by (simp add: file_keys_written)
qed

theorem linked_keys_distinct_witness:
  "distinct (filter linked (file_keys (run_all no_files [(two_env, Some 0), (two_env, Some 0)] 0))) \<and>
   file_keys (run_all no_files [(two_env, Some 0), (two_env, Some 0)] 0)
     = [(ustr ''T1'', ustr ''L1''), (ustr ''T2'', ustr ''L2'')]"
  by (rule conjI [OF linked_keys_distinct two_keys])

subsection \<open>C2: running twice\<close>

text \<open>
  Claim C2 says that a second run for the same date against the same responses adds no
  row. With a feed whose entry has no link the second run adds the row again: two
  rows after two runs, one row after one.
\<close>

theorem second_run_appends_linkless:
  "file_size (run_all no_files [(linkless_env, Some 0), (linkless_env, Some 0)] 0) = 2 \<and>
   file_size (run_all no_files [(linkless_env, Some 0)] 0) = 1"
  unfolding linkless_two_runs linkless_one_run by (simp add: file_size_def)

text \<open>
  Claim C2, amended: when every record parsed from the responses has a non-empty link
  and the day's dataset is absent or was written by earlier runs, a second run for the
  same date against the same responses (only the clock has moved) leaves the store as
  the first run left it: it appends nothing.
\<close>

theorem second_run_adds_nothing:
  assumes q: "load_queries (QUERY_FILE e) = Inr qs"
    and links: "\<forall>j<length qs. \<forall>it\<in>set (fetch_items e (Suc j) (qs ! j)). link it \<noteq> []"
    and run1: "collect_daily e day (run_all no_files runs) = Inr (d, st1)"
  shows "collect_daily (e\<lparr>now_jst_iso := clock\<rparr>) day st1 = Inr (d, st1)"
proof -
  let ?st = "run_all no_files runs"
  let ?e' = "e\<lparr>now_jst_iso := clock\<rparr>"
  let ?f = "?st d"
  let ?kept = "kept_items e 1 (read_existing_set ?f) qs"
  have d: "d = the_day e day" using run1 q
    by (auto simp: collect_daily_def the_day_def Let_def split: if_splits)
  have st1: "st1 = (if map as_row ?kept \<noteq> [] then ?st(d := append_rows ?f (map as_row ?kept)) else ?st)"
    using run1 q d
    by (auto simp: collect_daily_def the_day_def Let_def all_new_rows_kept split: if_splits)
  then have f1: "st1 d = (if map as_row ?kept \<noteq> [] then append_rows ?f (map as_row ?kept) else ?f)"
    by simp
  have wf: "wf_file ?f" by (rule wf_reachable)
  have kl: "\<forall>it\<in>set ?kept. link it \<noteq> []"
  proof
    fix it assume "it \<in> set ?kept"
    then obtain j where "j < length qs" "it \<in> set (fetch_items e (1 + j) (qs ! j))"
      using kept_items_fetched by blast
    then show "link it \<noteq> []" using links by simp
  qed
  have kt: "\<forall>it\<in>set ?kept. trimmed it" using kept_items_trimmed by blast
  have s1: "read_existing_set (st1 d) = read_existing_set ?f \<union> item_key ` set ?kept"
    unfolding f1 by (rule rerun_index [OF wf kl kt])
  have "\<forall>j<length qs. item_key ` set (fetch_items ?e' (1 + j) (qs ! j)) \<subseteq> read_existing_set (st1 d)"
  proof (intro allI impI)
    fix j assume j: "j < length qs"
    have "item_key ` set (fetch_items e (1 + j) (qs ! j))
        \<subseteq> read_existing_set ?f \<union> item_key ` set ?kept"
      using fetched_key_seen_or_kept [OF j] by blast
    then show "item_key ` set (fetch_items ?e' (1 + j) (qs ! j)) \<subseteq> read_existing_set (st1 d)"
      by (simp only: fetch_keys_clock s1)
  qed
  then have "kept_items ?e' 1 (read_existing_set (st1 d)) qs = []"
    by (rule kept_items_all_seen)
  then have "all_new_rows ?e' (st1 d) qs = []" by (simp add: all_new_rows_kept)
  then show ?thesis using q d
    by (cases day) (simp_all add: collect_daily_def the_day_def Let_def)
qed

theorem second_run_adds_nothing_witness:
  "collect_daily (two_env\<lparr>now_jst_iso := (\<lambda>i k. ustr ''later'')\<rparr>) (Some 0)
       (no_files(0 := Some two_file))
     = Inr (0, no_files(0 := Some two_file))"
proof -
  have run1: "collect_daily two_env (Some 0) (run_all no_files []) = Inr (0, no_files(0 := Some two_file))"
    using two_first_run by simp
  show ?thesis by (rule second_run_adds_nothing [OF two_queries two_links run1])
qed

subsection \<open>C3: rows without a link are not loaded into the index\<close>

text \<open>
  Claim C3: no key with an empty link is ever in the index loaded from a day's file, so
  a row whose link is empty does not seed it; and when a query of a later run yields
  an entry with an empty link, the rows that run appends hold a row with that title and
  the empty link, whatever the file already holds.
\<close>

theorem empty_link_not_indexed:
  "(t, []) \<notin> read_existing_set f \<and>
   (j < length qs \<longrightarrow> it \<in> set (fetch_items e (Suc j) (qs ! j)) \<longrightarrow> link it = [] \<longrightarrow>
      (\<exists>r\<in>set (all_new_rows e f qs).
         r (ustr ''title'') = Some (title it) \<and> r (ustr ''link'') = Some []))"
proof -
  have a: "(t, []) \<notin> read_existing_set f" for t
    using read_existing_set_nonempty [of t "[]" f] by blast
  have b: "\<exists>r\<in>set (all_new_rows e f qs).
         r (ustr ''title'') = Some (title it) \<and> r (ustr ''link'') = Some []"
    if j: "j < length qs" and i: "it \<in> set (fetch_items e (Suc j) (qs ! j))" and l: "link it = []"
  proof -
    have "item_key it \<notin> read_existing_set f" using a [of "title it"] l by (simp add: item_key_def)
    moreover have "it \<in> set (fetch_items e (1 + j) (qs ! j))" using i by simp
    ultimately have "item_key it \<in> item_key ` set (kept_items e 1 (read_existing_set f) qs)"
      using j by (intro kept_items_keeps [where it = it and j = j]) auto
    then obtain it' where k: "it' \<in> set (kept_items e 1 (read_existing_set f) qs)"
      and e: "item_key it' = item_key it" by auto
    have "as_row it' \<in> set (all_new_rows e f qs)" using k by (simp add: all_new_rows_kept)
    moreover have "as_row it' (ustr ''title'') = Some (title it) \<and> as_row it' (ustr ''link'') = Some []"
      using e l by (simp add: as_row_def ustr_def item_key_def)
    ultimately show ?thesis by blast
  qed
  from a b show ?thesis by blast
qed

theorem empty_link_not_indexed_witness:
  "(ustr ''T1'', []) \<notin> read_existing_set (Some [Rec header, item_rec linkless_item]) \<and>
   all_new_rows linkless_env (Some [Rec header, item_rec linkless_item]) [ustr ''A''] \<noteq> []"
proof -
  have j: "0 < length [ustr ''A'']" by simp
  have i: "linkless_item \<in> set (fetch_items linkless_env (Suc 0) ([ustr ''A''] ! 0))"
    by (simp add: linkless_fetch)
  have l: "link linkless_item = []" by (simp add: linkless_item_def)
  show ?thesis
    using empty_link_not_indexed [where t = "ustr ''T1''"
        and f = "Some [Rec header, item_rec linkless_item]" and j = 0 and qs = "[ustr ''A'']"
        and it = linkless_item and e = linkless_env] j i l
    by fastforce
qed

subsection \<open>C4: the scenario with two queries\<close>

text \<open>
  Claim C4: the queries are A and B; the feed of A holds (T1, L1) and (T2, L2), the feed
  of B holds (T1, L1) again and an entry without title and link L3; the day has no file.
  Then the run writes the header and exactly two rows, (T1, L1) and (T2, L2), both of
  query A, in that order. The titles and links are taken as trimmed, the two keys as
  different, the cap as at least 2.
\<close>

theorem scenario_two_queries:
  assumes "load_queries (QUERY_FILE e) = Inr [ustr ''A'', ustr ''B'']"
    and "http_get e 1 (ustr ''A'') = Inr xa"
    and "fromstring e xa = Inr (rss_feed [rss_item T1 L1, rss_item T2 L2])"
    and "http_get e 2 (ustr ''B'') = Inr xb"
    and "fromstring e xb = Inr (rss_feed [rss_item T1 L1, rss_item blank L3])"
    and "strip T1 = T1" and "T1 \<noteq> []" and "strip L1 = L1"
    and "strip T2 = T2" and "T2 \<noteq> []" and "strip L2 = L2"
    and "(T1, L1) \<noteq> (T2, L2)"
    and "strip blank = []"
    and "2 \<le> MAX_ITEMS_PER_QUERY e"
    and "st d = None"
  shows "collect_daily e (Some d) st =
     Inr (d, st(d := Some
       [Rec header,
        Rec [ustr ''GoogleNews:'' @ ustr ''A'', ustr ''A'', T1, L1, [], now_jst_iso e 1 0],
        Rec [ustr ''GoogleNews:'' @ ustr ''A'', ustr ''A'', T2, L2, [], now_jst_iso e 1 1]]))"
  using assms by (rule scenario_run)

theorem scenario_two_queries_witness:
  "collect_daily two_env (Some 0) no_files =
     Inr (0, no_files(0 := Some
       [Rec header,
        Rec [ustr ''GoogleNews:'' @ ustr ''A'', ustr ''A'', ustr ''T1'', ustr ''L1'', [], []],
        Rec [ustr ''GoogleNews:'' @ ustr ''A'', ustr ''A'', ustr ''T2'', ustr ''L2'', [], []]]))"
proof -
  have clock: "now_jst_iso two_env 1 0 = []" "now_jst_iso two_env 1 1 = []"
    by (simp_all add: two_env_def demo_env_def)
  have new: "no_files 0 = None" by (simp add: no_files_def)
  show ?thesis
    using scenario_two_queries [where st = no_files and d = 0,
        OF two_queries two_get_A two_parse_A two_get_B two_parse_B
        strip_values(1) two_titles(1) strip_values(3) strip_values(2) two_titles(2)
        strip_values(4) two_keys_differ strip_Nil two_cap new]
    by (simp only: clock)
qed

subsection \<open>C5: the cap comes before the title filter\<close>

text \<open>
  Claim C5: the parser cuts the entries of the channel to the first \<open>max_items\<close> in
  document order and only then drops the titleless ones: its records are the entries
  with a title among the cut ones, so every titleless entry among them uses up a place
  of the cap, and the parser returns fewer than \<open>max_items\<close> records then, however
  many entries with a title follow.
\<close>

theorem parse_rss_cap_before_filter:
  assumes "parser xml_text = Inr root"
    and "find_elem root (ustr ''channel'') = Some channel"
  shows "\<exists>items. parse_rss parser now xml_text q max_items = Inr items \<and>
     length items = length (filter (\<lambda>it. \<not> titleless it) (slice_to (findall channel (ustr ''item'')) max_items)) \<and>
     map title items = map (\<lambda>it. strip (or_empty (findtext it (ustr ''title''))))
        (filter (\<lambda>it. \<not> titleless it) (slice_to (findall channel (ustr ''item'')) max_items)) \<and>
     (0 \<le> max_items \<longrightarrow> (\<exists>it\<in>set (slice_to (findall channel (ustr ''item'')) max_items). titleless it) \<longrightarrow>
        int (length items) < max_items)"
proof -
  let ?raw = "slice_to (findall channel (ustr ''item'')) max_items"
  let ?items = "parse_items now 0 q ?raw"
  have p: "parse_rss parser now xml_text q max_items = Inr ?items"
    using assms by (simp add: parse_rss_def)
  have l: "length ?items = length (filter (\<lambda>it. \<not> titleless it) ?raw)"
    by (rule length_parse_items)
  have t: "map title ?items = map (\<lambda>it. strip (or_empty (findtext it (ustr ''title''))))
        (filter (\<lambda>it. \<not> titleless it) ?raw)"
    by (rule title_parse_items)
  have c: "int (length ?items) < max_items"
    if "0 \<le> max_items" and "\<exists>it\<in>set ?raw. titleless it"
  proof -
    from that(2) obtain it where "it \<in> set ?raw" "titleless it" by blast
    then have "length (filter (\<lambda>it. \<not> titleless it) ?raw) < length ?raw"
      by (metis length_filter_less)
    moreover have "length ?raw \<le> nat max_items" using that(1) by (rule length_slice_to)
    ultimately show ?thesis using l by linarith
  qed
  from p l t c show ?thesis by blast
qed

theorem parse_rss_cap_before_filter_witness:
  "parse_rss blank_first_feed (\<lambda>k. []) (ustr ''<rss>'') (ustr ''A'') 2
     = Inr [\<lparr>query = ustr ''A'', title = ustr ''T1'', link = ustr ''L1'', published = [],
             collected_jst = []\<rparr>]"
  using parse_rss_cap_before_filter [where parser = blank_first_feed and xml_text = "ustr ''<rss>''"
      and now = "\<lambda>k. []" and q = "ustr ''A''" and max_items = 2,
      OF blank_first_parse find_channel_feed]
  by (simp only: blank_first_value)

subsection \<open>C6: the parser never raises\<close>

text \<open>
  Claim C6: for every input text, whatever the XML parser does with it, \<^verbatim>\<open>parse_rss\<close>
  returns a list of records; when the text is not well-formed XML, or the root has no
  child named channel, the list is empty.
\<close>

theorem parse_rss_never_raises:
  "(\<exists>items. parse_rss parser now xml_text q max_items = Inr items) \<and>
   (\<forall>x. parser xml_text = Inl x \<longrightarrow> parse_rss parser now xml_text q max_items = Inr []) \<and>
   (\<forall>root. parser xml_text = Inr root \<longrightarrow> (\<forall>c\<in>set (children root). tag c \<noteq> ustr ''channel'') \<longrightarrow>
        parse_rss parser now xml_text q max_items = Inr [])"
proof (intro conjI allI impI)
  show "\<exists>items. parse_rss parser now xml_text q max_items = Inr items"
    by (simp add: parse_rss_def split: sum.split option.split)
next
  fix x assume "parser xml_text = Inl x"
  then show "parse_rss parser now xml_text q max_items = Inr []"
    by (simp add: parse_rss_def)
next
  fix root assume r: "parser xml_text = Inr root"
    and n: "\<forall>c\<in>set (children root). tag c \<noteq> ustr ''channel''"
  from n have "findall root (ustr ''channel'') = []"
    by (simp add: findall_def filter_empty_conv)
  then have "find_elem root (ustr ''channel'') = None" by (simp add: find_elem_def)
  with r show "parse_rss parser now xml_text q max_items = Inr []"
    by (simp add: parse_rss_def)
qed

theorem parse_rss_never_raises_witness:
  "parse_rss (\<lambda>t. Inl ParseError) (\<lambda>k. []) (ustr ''<rss'') (ustr ''A'') 60 = Inr [] \<and>
   parse_rss (\<lambda>t. Inr (Element (ustr ''rss'') None [Element (ustr ''item'') None []]))
      (\<lambda>k. []) (ustr ''<rss><item/></rss>'') (ustr ''A'') 60 = Inr []"
  using parse_rss_never_raises [of "\<lambda>t. Inl ParseError" "\<lambda>k. []" "ustr ''<rss''" "ustr ''A''" 60]
    parse_rss_never_raises [of "\<lambda>t. Inr (Element (ustr ''rss'') None [Element (ustr ''item'') None []])"
       "\<lambda>k. []" "ustr ''<rss><item/></rss>''" "ustr ''A''" 60]
  by (simp add: ustr_def)

subsection \<open>C7: loading the index\<close>

text \<open>
  Claim C7 says that a read failure gives an empty index. A failure after the first
  rows does not: the keys read before it stay in the index.
\<close>

theorem read_failure_keeps_earlier_keys:
  "read_existing_set (Some [Rec header, news_rec (ustr ''A'') (ustr ''T1'') (ustr ''L1''), Bad,
      news_rec (ustr ''A'') (ustr ''T2'') (ustr ''L2'')]) \<noteq> {}"
  by (simp only: bad_file_index) simp

text \<open>
  Claim C7, amended: the index holds the keys of the rows that have a non-empty title and
  a non-empty link after trimming, and of no other row. A missing file gives the empty
  index. A read failure never fails the load: the index then holds the keys of the rows
  read before the failure, and is empty when the very first read fails.
\<close>

theorem read_existing_set_index:
  "read_existing_set None = {} \<and>
   read_existing_set (Some (Rec fn # map Rec rows)) = row_key fn ` {c \<in> set rows. keyed fn c} \<and>
   read_existing_set (Some (Rec fn # map Rec rows @ Bad # rest)) = row_key fn ` {c \<in> set rows. keyed fn c} \<and>
   read_existing_set (Some (Bad # rest)) = {} \<and>
   (\<forall>t l. (t, l) \<in> read_existing_set f \<longrightarrow> t \<noteq> [] \<and> l \<noteq> [])"
proof -
  have a: "read_existing_set None = {}" by (simp add: read_existing_set_def)
  have b: "read_existing_set (Some (Rec fn # map Rec rows)) = row_key fn ` {c \<in> set rows. keyed fn c}"
    by (simp add: read_existing_set_def read_rows_Rec)
  have c: "read_existing_set (Some (Rec fn # map Rec rows @ Bad # rest)) = row_key fn ` {c \<in> set rows. keyed fn c}"
    by (simp add: read_existing_set_def read_rows_Bad read_rows_Rec)
  have d: "read_existing_set (Some (Bad # rest)) = {}" by (simp add: read_existing_set_def)
  have e: "t \<noteq> [] \<and> l \<noteq> []" if "(t, l) \<in> read_existing_set f" for t l
    using that by (rule read_existing_set_nonempty)
  from a b c d e show ?thesis by blast
qed

theorem read_existing_set_index_witness:
  "read_existing_set (Some [Rec header, news_rec (ustr ''A'') (ustr ''T1'') (ustr ''L1''),
      news_rec (ustr ''A'') (ustr ''T2'') []]) = {(ustr ''T1'', ustr ''L1'')} \<and>
   ustr ''T1'' \<noteq> [] \<and> ustr ''L1'' \<noteq> []"
proof -
  let ?f = "Some [Rec header, news_rec (ustr ''A'') (ustr ''T1'') (ustr ''L1''),
      news_rec (ustr ''A'') (ustr ''T2'') []]"
  have v: "read_existing_set ?f = {(ustr ''T1'', ustr ''L1'')}" by (rule linkless_row_index)
  then have m: "(ustr ''T1'', ustr ''L1'') \<in> read_existing_set ?f" by simp
  have "ustr ''T1'' \<noteq> [] \<and> ustr ''L1'' \<noteq> []"
    using read_existing_set_index [where fn = header and rows = "[]" and rest = "[]" and f = ?f] m
    by blast
  then show ?thesis using v by (rule conjI [rotated])
qed

subsection \<open>C8: the final append\<close>

text \<open>
  Claim C8: when the batch of a run is empty the store is left as it was, so the day's
  file is not created and an existing one is not changed; when the batch is not empty
  the day's file becomes its old content, or the header when there was no file,
  followed by the records of the whole batch, and no other day's file changes.
\<close>

theorem final_append_once:
  assumes "load_queries (QUERY_FILE e) = Inr qs"
  shows
    "(all_new_rows e (st (the_day e day)) qs = [] \<longrightarrow>
        collect_daily e day st = Inr (the_day e day, st)) \<and>
     (all_new_rows e (st (the_day e day)) qs \<noteq> [] \<longrightarrow>
        (\<exists>st'. collect_daily e day st = Inr (the_day e day, st') \<and>
           st' (the_day e day) =
             Some ((case st (the_day e day) of None \<Rightarrow> [Rec header] | Some old \<Rightarrow> old)
                   @ map (\<lambda>r. Rec (row_fields r)) (all_new_rows e (st (the_day e day)) qs)) \<and>
           (\<forall>d. d \<noteq> the_day e day \<longrightarrow> st' d = st d)))"
  using assms
  by (auto simp: collect_daily_def the_day_def Let_def append_rows_def split: option.splits)

theorem final_append_once_witness:
  "collect_daily two_env (Some 0) (no_files(0 := Some two_file))
     = Inr (0, no_files(0 := Some two_file))"
proof -
  have d: "the_day two_env (Some 0) = 0" by (simp add: the_day_def)
  have r: "all_new_rows two_env ((no_files(0 := Some two_file)) 0) [ustr ''A'', ustr ''B''] = []"
    using two_rows_again by simp
  show ?thesis
    using final_append_once [OF two_queries, where day = "Some 0" and st = "no_files(0 := Some two_file)"] r
    unfolding d by blast
qed

subsection \<open>C9: the queries of a run\<close>

text \<open>
  Claim C9 says that loading the queries never fails. A query file whose bytes are not
  UTF-8 makes \<^verbatim>\<open>read_text\<close> raise, and nothing catches the exception.
\<close>

theorem load_queries_undecodable:
  "load_queries Undecodable = Inl UnicodeDecodeError"
  by (simp add: load_queries_def load_queries_from_file_def)

text \<open>
  Claim C9, amended: loading the queries never gives an empty list, and it does not fail
  when the query file is absent or can be read as text. When the file is absent, or no
  line is left after trimming the lines and dropping the blank ones and those that start
  with the comment mark, the built-in list is used; otherwise the lines left are
  the queries, in file order and with their duplicates. A file that cannot be decoded
  makes the load raise.
\<close>

theorem load_queries_cases:
  "load_queries Missing = Inr DEFAULT_QUERIES \<and>
   load_queries (Text t) =
     Inr (if filter usable (map strip (splitlines t)) = [] then DEFAULT_QUERIES
          else filter usable (map strip (splitlines t))) \<and>
   load_queries Undecodable = Inl UnicodeDecodeError \<and>
   (\<forall>qs. load_queries path = Inr qs \<longrightarrow> qs \<noteq> [])"
proof -
  have a: "load_queries Missing = Inr DEFAULT_QUERIES"
    by (simp add: load_queries_def load_queries_from_file_def)
  have b: "load_queries (Text t) =
     Inr (if filter usable (map strip (splitlines t)) = [] then DEFAULT_QUERIES
          else filter usable (map strip (splitlines t)))"
    by (simp add: load_queries_def load_queries_from_file_def usable_lines_filter)
  have c: "load_queries Undecodable = Inl UnicodeDecodeError"
    by (simp add: load_queries_def load_queries_from_file_def)
  have d: "qs \<noteq> []" if "load_queries path = Inr qs" for qs
    using that
    by (cases path)
      (auto simp: load_queries_def load_queries_from_file_def DEFAULT_QUERIES_def split: if_splits)
  from a b c d show ?thesis by blast
qed

theorem load_queries_cases_witness:
  "load_queries (Text (ustr ''A\<newline> # c \<newline>\<newline>  B  \<newline>A'')) = Inr [ustr ''A'', ustr ''B'', ustr ''A''] \<and>
   [ustr ''A'', ustr ''B'', ustr ''A''] \<noteq> []"
  using load_queries_cases [of "ustr ''A\<newline> # c \<newline>\<newline>  B  \<newline>A''"
      "Text (ustr ''A\<newline> # c \<newline>\<newline>  B  \<newline>A'')"]
  by (simp only: queries_value) simp

subsection \<open>C10: entries without a title\<close>

text \<open>
  Claim C10: an entry whose title is missing, empty or white space only, whatever its
  other fields, adds no record to the parser's output, wherever it stands among the
  entries; every record the parser returns has a title that is not empty and not white
  space only; and so has every row of every day's dataset that runs have produced.
\<close>

theorem titleless_never_output:
  "(titleless it \<longrightarrow>
      parse_items now k q (xs @ it # ys)
        = parse_items now k q xs @ parse_items now (Suc (k + length xs)) q ys) \<and>
   (parse_rss parser now x q n = Inr items \<longrightarrow>
      (\<forall>r\<in>set items. title r \<noteq> [] \<and> \<not> (\<forall>c\<in>set (title r). isspace c))) \<and>
   (\<forall>key\<in>set (file_keys (run_all no_files runs d)).
      fst key \<noteq> [] \<and> \<not> (\<forall>c\<in>set (fst key). isspace c))"
proof -
  have a: "parse_items now k q (xs @ it # ys)
        = parse_items now k q xs @ parse_items now (Suc (k + length xs)) q ys" if "titleless it"
    using that by (rule titleless_skipped)
  have b: "\<forall>r\<in>set items. title r \<noteq> [] \<and> \<not> (\<forall>c\<in>set (title r). isspace c)"
    if "parse_rss parser now x q n = Inr items"
    using parse_rss_trimmed [OF that] trimmed_not_blank by blast
  have c: "\<forall>key\<in>set (file_keys (run_all no_files runs d)).
      fst key \<noteq> [] \<and> \<not> (\<forall>c\<in>set (fst key). isspace c)"
    using written_titles by blast
  from a b c show ?thesis by blast
qed

theorem titleless_never_output_witness:
  "parse_items (\<lambda>k. []) 0 (ustr ''A'') ([] @ rss_item (ustr '' '') (ustr ''L0'') # [])
     = parse_items (\<lambda>k. []) 0 (ustr ''A'') []
       @ parse_items (\<lambda>k. []) (Suc (0 + length ([] :: element list))) (ustr ''A'') []"
  using titleless_never_output [where it = "rss_item (ustr '' '') (ustr ''L0'')"
      and now = "\<lambda>k. []" and k = 0 and q = "ustr ''A''" and xs = "[]" and ys = "[]"
      and parser = blank_first_feed and x = "ustr ''<rss>''" and n = 2
      and items = "[]" and runs = "[]" and d = 0]
    blank_titleless
  by blast

end
